theory Spec2Isabelle
  imports Main "HOL-Library.AList"
begin

section \<open>Registry cleanup client: \<^verbatim>\<open>scripts/cleanup_registry.py\<close>\<close>

text \<open>
  A shallow embedding of the class \<^verbatim>\<open>RegistryCleanup\<close>. Python strings are modelled as
  \<^typ>\<open>string\<close> (one \<^typ>\<open>char\<close> per code point, restricted to the 8-bit range), Python integers
  as \<^typ>\<open>int\<close>, exceptions as the left summand of a sum type, and the registry at the other
  end of the HTTP session as an arbitrary deterministic state machine.
\<close>

subsection \<open>Strings\<close>

definition newline :: char where
  "newline = CHR 0x0A"

definition backslash :: char where
  "backslash = CHR 0x5C"

text \<open>\<^verbatim>\<open>str.replace(old, new)\<close> for an \<^verbatim>\<open>old\<close> of length one: every occurrence, left to right.\<close>

primrec str_replace :: "char \<Rightarrow> string \<Rightarrow> string \<Rightarrow> string" where
  "str_replace old new [] = []"
| "str_replace old new (c # cs) =
     (if c = old then new @ str_replace old new cs else c # str_replace old new cs)"

text \<open>
  \<^verbatim>\<open>str.lower()\<close> on the 8-bit range: the ASCII capitals and the Latin-1 capitals
  (U+00C0 to U+00DE, the multiplication sign U+00D7 apart) move up by 32.
\<close>

definition lower_char :: "char \<Rightarrow> char" where
  "lower_char c =
     (let n = of_char c :: nat in
      if (65 \<le> n \<and> n \<le> 90) \<or> (192 \<le> n \<and> n \<le> 222 \<and> n \<noteq> 215)
      then char_of (n + 32) else c)"

definition lower :: "string \<Rightarrow> string" where
  "lower s = map lower_char s"

subsection \<open>The fragment of Python's \<^verbatim>\<open>re\<close> that the pattern translation reaches\<close>

text \<open>
  The source builds the regular expression \<^verbatim>\<open>'^' + translated + '$'\<close>, compiles it and
  calls \<^verbatim>\<open>regex.match(repo)\<close>. The model covers the expressions made of literal characters,
  \<^verbatim>\<open>.\<close>, a \<^verbatim>\<open>*\<close> after either, and the anchors \<^verbatim>\<open>^\<close> and \<^verbatim>\<open>$\<close>. Without flags,
  \<^verbatim>\<open>.\<close> matches every character but the newline, \<^verbatim>\<open>^\<close> matches at the start of the string,
  and \<^verbatim>\<open>$\<close> matches at the end of the string and also just before a newline that ends the
  string.
\<close>

datatype atom = Lit char | Dot

datatype item = Bol | Eol | One atom | Star atom

definition metachar :: "char \<Rightarrow> bool" where
  "metachar c = (c \<in> set ''.^$*+?{}[]|()'' \<or> c = backslash)"

text \<open>
  \<^verbatim>\<open>re.compile\<close>: \<^term>\<open>None\<close> stands for an expression outside the fragment (Python either
  raises \<^verbatim>\<open>re.error\<close> or applies a construct that is not modelled here).
\<close>

fun re_compile :: "string \<Rightarrow> item list option" where
  "re_compile [] = Some []"
| "re_compile (c # cs) =
     (if c = CHR ''^'' then map_option (Cons Bol) (re_compile cs)
      else if c = CHR ''$'' then map_option (Cons Eol) (re_compile cs)
      else if metachar c \<and> c \<noteq> CHR ''.'' then None
      else (case cs of
              [] \<Rightarrow> Some [One (if c = CHR ''.'' then Dot else Lit c)]
            | d # ds \<Rightarrow>
                if d = CHR ''*''
                then map_option (Cons (Star (if c = CHR ''.'' then Dot else Lit c))) (re_compile ds)
                else map_option (Cons (One (if c = CHR ''.'' then Dot else Lit c))) (re_compile cs)))"

fun atom_matches :: "atom \<Rightarrow> char \<Rightarrow> bool" where
  "atom_matches (Lit l) c = (c = l)"
| "atom_matches Dot c = (c \<noteq> newline)"

text \<open>
  Whether the items match from the current position. \<open>full\<close> asks the match to end at the
  end of the string (\<^verbatim>\<open>fullmatch\<close>); \<open>at_start\<close> says that the position is the start of
  the string. The search of Python's engine backtracks over every split of a star, so a match
  object is returned exactly when some split succeeds.
\<close>

fun matches_from :: "bool \<Rightarrow> item list \<Rightarrow> bool \<Rightarrow> string \<Rightarrow> bool" where
  "matches_from full [] at_start s = (if full then s = [] else True)"
| "matches_from full (Bol # rx) at_start s = (at_start \<and> matches_from full rx at_start s)"
| "matches_from full (Eol # rx) at_start s =
     ((s = [] \<or> s = [newline]) \<and> matches_from full rx at_start s)"
| "matches_from full (One a # rx) at_start [] = False"
| "matches_from full (One a # rx) at_start (c # cs) =
     (atom_matches a c \<and> matches_from full rx False cs)"
| "matches_from full (Star a # rx) at_start [] = matches_from full rx at_start []"
| "matches_from full (Star a # rx) at_start (c # cs) =
     (matches_from full rx at_start (c # cs) \<or>
      (atom_matches a c \<and> matches_from full (Star a # rx) False cs))"

definition re_match :: "item list \<Rightarrow> string \<Rightarrow> bool" where
  "re_match rx s = matches_from False rx True s"

definition re_fullmatch :: "item list \<Rightarrow> string \<Rightarrow> bool" where
  "re_fullmatch rx s = matches_from True rx True s"

subsection \<open>The pattern translation of \<^verbatim>\<open>cleanup_repositories_by_pattern\<close>\<close>

text \<open>\<^verbatim>\<open>regex_pattern = pattern.replace('*', '.*').replace('?', '.')\<close>\<close>

definition regex_pattern :: "string \<Rightarrow> string" where
  "regex_pattern pattern = str_replace CHR ''?'' ''.'' (str_replace CHR ''*'' ''.*'' pattern)"

text \<open>\<^verbatim>\<open>regex = re.compile(f'^{regex_pattern}$')\<close>\<close>

definition compile_pattern :: "string \<Rightarrow> item list option" where
  "compile_pattern pattern = re_compile (''^'' @ regex_pattern pattern @ ''$'')"

text \<open>
  The function itself takes the library as a parameter, so that what is proved of it holds
  for every pattern, whatever Python makes of the translated expression: a library maps
  the source of an expression to \<^term>\<open>None\<close> when \<^verbatim>\<open>re.compile\<close> raises, and otherwise
  to the test \<^verbatim>\<open>regex.match(s)\<close> of the compiled expression.
\<close>

type_synonym regex_library = "string \<Rightarrow> (string \<Rightarrow> bool) option"

text \<open>
  The library on the modelled fragment, for concrete runs. Outside the fragment it answers
  \<^term>\<open>None\<close>, which need not be Python's answer there; it is used only on expressions of
  the fragment and on \<^verbatim>\<open>^[$\<close>, where Python raises \<^verbatim>\<open>re.error\<close> (unterminated character
  set).
\<close>

definition fragment_re :: regex_library where
  "fragment_re source = map_option re_match (re_compile source)"

text \<open>\<^verbatim>\<open>[repo for repo in repositories if regex.match(repo)]\<close>\<close>

definition matching_repos :: "(string \<Rightarrow> bool) \<Rightarrow> string list \<Rightarrow> string list" where
  "matching_repos regex_match repositories = filter regex_match repositories"

text \<open>
  The acceptance test of one repository name by one pattern, as the source performs it:
  \<^term>\<open>None\<close> when the translated expression is outside the modelled fragment.
\<close>

definition pattern_accepts :: "string \<Rightarrow> string \<Rightarrow> bool option" where
  "pattern_accepts pattern repo = map_option (\<lambda>rx. re_match rx repo) (compile_pattern pattern)"

text \<open>
  The reading the specification gives of the same test: the name full-matches the
  translation of the pattern.
\<close>

definition pattern_fullmatches :: "string \<Rightarrow> string \<Rightarrow> bool option" where
  "pattern_fullmatches pattern repo =
     map_option (\<lambda>rx. re_fullmatch rx repo) (re_compile (regex_pattern pattern))"

text \<open>
  The patterns whose translation lies in the modelled fragment: the wildcards \<^verbatim>\<open>*\<close> and
  \<^verbatim>\<open>?\<close>, the dot, and characters that are no metacharacters of \<^verbatim>\<open>re\<close>.
\<close>

definition wildcard_pattern :: "string \<Rightarrow> bool" where
  "wildcard_pattern p = list_all (\<lambda>c. c \<in> set ''*?.'' \<or> \<not> metachar c) p"

text \<open>
  The shell's reading of a pattern, for comparison: \<^verbatim>\<open>*\<close> stands for any sequence of
  characters, \<^verbatim>\<open>?\<close> for any one character, every other character for itself.
\<close>

fun glob_match :: "string \<Rightarrow> string \<Rightarrow> bool" where
  "glob_match [] s = (s = [])"
| "glob_match (p # ps) [] = (p = CHR ''*'' \<and> glob_match ps [])"
| "glob_match (p # ps) (c # cs) =
     (if p = CHR ''*'' then glob_match ps (c # cs) \<or> glob_match (p # ps) cs
      else if p = CHR ''?'' then glob_match ps cs
      else p = c \<and> glob_match ps cs)"

subsection \<open>The HTTP session and the registry behind it\<close>

datatype http_method = GET | HEAD | DELETE

record request =
  http_method :: http_method
  url :: string
  accept :: "string option"

text \<open>
  What \<^verbatim>\<open>response.json()\<close> gives: \<open>Unreadable\<close> when it raises (or yields something that
  has no \<^verbatim>\<open>get\<close>), otherwise the parsed object as a finite map. A field of the object is
  \<^verbatim>\<open>null\<close> or an array of strings, the two shapes the registry API uses for
  \<^verbatim>\<open>repositories\<close> and \<^verbatim>\<open>tags\<close>.
\<close>

datatype jvalue = JNull | JArray "string list"

datatype body = Unreadable | JObject "string \<rightharpoonup> jvalue"

record response =
  status_code :: int
  content_digest :: "string option"
  body :: body

text \<open>
  \<open>NoReply\<close>: \<^verbatim>\<open>session.request\<close> raises a \<^verbatim>\<open>RequestException\<close> that is not an
  \<^verbatim>\<open>HTTPError\<close> (connection refused, timeout, TLS failure).
\<close>

datatype outcome = NoReply | Reply response

text \<open>
  The exceptions that reach the model: \<^verbatim>\<open>HTTPError\<close> with the status of the response,
  any other \<^verbatim>\<open>RequestException\<close>, \<^verbatim>\<open>EOFError\<close> from \<^verbatim>\<open>input\<close>, and what
  \<^verbatim>\<open>re.compile\<close> raises, \<^verbatim>\<open>re.error\<close> as a rule (\<open>PatternError\<close>).
\<close>

datatype exn = HTTPError int | ConnectionError | EOFError | PatternError

text \<open>
  The registry is any deterministic machine: from its state and a request it gives the
  outcome of the request and its next state.
\<close>

type_synonym 's registry = "'s \<Rightarrow> request \<Rightarrow> outcome \<times> 's"

datatype line = OperationCancelled | TotalSummary nat int int

text \<open>
  The world a run acts on: the registry's state, the requests issued so far (oldest first),
  the lines still to be read from standard input, and the lines printed that the claims
  speak of (the cancellation message and the total summary).
\<close>

record 's world =
  registry_state :: 's
  sent :: "request list"
  stdin :: "string list"
  console :: "line list"

record client =
  registry_url :: string
  verify_ssl :: bool
  dry_run :: bool
  auth :: "(string \<times> string) option"

text \<open>\<^verbatim>\<open>registry_url.rstrip('/')\<close>\<close>

definition rstrip_slash :: "string \<Rightarrow> string" where
  "rstrip_slash s = rev (dropWhile (\<lambda>c. c = CHR ''/'') (rev s))"

text \<open>\<^verbatim>\<open>RegistryCleanup.__init__\<close>: credentials are kept when both are non-empty.\<close>

definition init :: "string \<Rightarrow> string option \<Rightarrow> string option \<Rightarrow> bool \<Rightarrow> bool \<Rightarrow> client" where
  "init address username password verify dry =
     \<lparr>registry_url = rstrip_slash address, verify_ssl = verify, dry_run = dry,
      auth = (case username of
                None \<Rightarrow> None
              | Some u \<Rightarrow> (case password of
                            None \<Rightarrow> None
                          | Some p \<Rightarrow> if u \<noteq> [] \<and> p \<noteq> [] then Some (u, p) else None))\<rparr>"

definition mk_request :: "client \<Rightarrow> http_method \<Rightarrow> string \<Rightarrow> string option \<Rightarrow> request" where
  "mk_request c m path acc =
     \<lparr>http_method = m, url = registry_url c @ ''/v2'' @ path, accept = acc\<rparr>"

text \<open>
  \<^verbatim>\<open>_make_request\<close>: the request is issued; \<^verbatim>\<open>raise_for_status\<close> raises for a status
  from 400 to 599; every exception is printed and raised again.
\<close>

definition make_request ::
  "'s registry \<Rightarrow> client \<Rightarrow> http_method \<Rightarrow> string \<Rightarrow> string option \<Rightarrow> 's world
    \<Rightarrow> (exn + response) \<times> 's world" where
  "make_request reg c m path acc w =
     (case reg (registry_state w) (mk_request c m path acc) of
        (out, st) \<Rightarrow>
          (case out of
             NoReply \<Rightarrow> Inl ConnectionError
           | Reply r \<Rightarrow>
               if 400 \<le> status_code r \<and> status_code r < 600
               then Inl (HTTPError (status_code r)) else Inr r,
           w\<lparr>registry_state := st, sent := sent w @ [mk_request c m path acc]\<rparr>))"

text \<open>\<^verbatim>\<open>data.get(key, [])\<close> followed by the uses the two listings make of the value.\<close>

definition list_repositories ::
  "'s registry \<Rightarrow> client \<Rightarrow> 's world \<Rightarrow> string list \<times> 's world" where
  "list_repositories reg c w =
     (case make_request reg c GET ''/_catalog'' None w of
        (Inl e, w') \<Rightarrow> ([], w')
      | (Inr r, w') \<Rightarrow>
          (case body r of
             Unreadable \<Rightarrow> ([], w')
           | JObject data \<Rightarrow>
               (case data ''repositories'' of
                  None \<Rightarrow> ([], w')
                | Some JNull \<Rightarrow> ([], w')
                | Some (JArray repositories) \<Rightarrow> (repositories, w'))))"

definition list_tags ::
  "'s registry \<Rightarrow> client \<Rightarrow> string \<Rightarrow> 's world \<Rightarrow> (exn + string list) \<times> 's world" where
  "list_tags reg c repository w =
     (case make_request reg c GET (''/'' @ repository @ ''/tags/list'') None w of
        (Inl e, w') \<Rightarrow>
          (case e of
             HTTPError st \<Rightarrow> if st = 404 then (Inr [], w') else (Inl (HTTPError st), w')
           | ConnectionError \<Rightarrow> (Inr [], w')
           | EOFError \<Rightarrow> (Inr [], w')
           | PatternError \<Rightarrow> (Inr [], w'))
      | (Inr r, w') \<Rightarrow>
          (case body r of
             Unreadable \<Rightarrow> (Inr [], w')
           | JObject data \<Rightarrow>
               (case data ''tags'' of
                  None \<Rightarrow> (Inr [], w')
                | Some JNull \<Rightarrow> (Inr [], w')
                | Some (JArray tags) \<Rightarrow> (Inr tags, w'))))"

definition manifest_types :: "string list" where
  "manifest_types =
     [''application/vnd.docker.distribution.manifest.v2+json'',
      ''application/vnd.docker.distribution.manifest.v1+json'',
      ''application/vnd.oci.image.manifest.v1+json'']"

text \<open>The loop of \<^verbatim>\<open>get_manifest_digest\<close> over the media types still to be tried.\<close>

fun probe_types ::
  "'s registry \<Rightarrow> client \<Rightarrow> string \<Rightarrow> string \<Rightarrow> string list \<Rightarrow> 's world
    \<Rightarrow> (exn + string option) \<times> 's world" where
  "probe_types reg c repository tag [] w = (Inr None, w)"
| "probe_types reg c repository tag (manifest_type # rest) w =
     (case make_request reg c HEAD (''/'' @ repository @ ''/manifests/'' @ tag)
             (Some manifest_type) w of
        (Inl e, w') \<Rightarrow>
          (case e of
             HTTPError st \<Rightarrow>
               if st = 404 then probe_types reg c repository tag rest w'
               else (Inl (HTTPError st), w')
           | ConnectionError \<Rightarrow> probe_types reg c repository tag rest w'
           | EOFError \<Rightarrow> probe_types reg c repository tag rest w'
           | PatternError \<Rightarrow> probe_types reg c repository tag rest w')
      | (Inr r, w') \<Rightarrow>
          (case content_digest r of
             None \<Rightarrow> probe_types reg c repository tag rest w'
           | Some digest \<Rightarrow>
               if digest \<noteq> [] then (Inr (Some digest), w')
               else probe_types reg c repository tag rest w'))"

definition get_manifest_digest ::
  "'s registry \<Rightarrow> client \<Rightarrow> string \<Rightarrow> string \<Rightarrow> 's world \<Rightarrow> (exn + string option) \<times> 's world" where
  "get_manifest_digest reg c repository tag w = probe_types reg c repository tag manifest_types w"

definition delete_manifest ::
  "'s registry \<Rightarrow> client \<Rightarrow> string \<Rightarrow> string \<Rightarrow> 's world \<Rightarrow> (exn + bool) \<times> 's world" where
  "delete_manifest reg c repository digest w =
     (if dry_run c then (Inr True, w)
      else (case make_request reg c DELETE (''/'' @ repository @ ''/manifests/'' @ digest) None w of
              (Inl e, w') \<Rightarrow> (Inr False, w')
            | (Inr r, w') \<Rightarrow> (Inr (status_code r = 202 \<or> status_code r = 204), w')))"

text \<open>The \<^verbatim>\<open>for tag in tags\<close> loop of \<^verbatim>\<open>cleanup_repository\<close>, with its two counters.\<close>

fun cleanup_tags ::
  "'s registry \<Rightarrow> client \<Rightarrow> string \<Rightarrow> string list \<Rightarrow> int \<times> int \<Rightarrow> 's world
    \<Rightarrow> (exn + int \<times> int) \<times> 's world" where
  "cleanup_tags reg c repository [] counts w = (Inr counts, w)"
| "cleanup_tags reg c repository (tag # tags) counts w =
     (case get_manifest_digest reg c repository tag w of
        (Inl e, w') \<Rightarrow> (Inl e, w')
      | (Inr None, w') \<Rightarrow> cleanup_tags reg c repository tags (fst counts, snd counts + 1) w'
      | (Inr (Some digest), w') \<Rightarrow>
          (case delete_manifest reg c repository digest w' of
             (Inl e, w'') \<Rightarrow> (Inl e, w'')
           | (Inr ok, w'') \<Rightarrow>
               if ok then cleanup_tags reg c repository tags (fst counts + 1, snd counts) w''
               else cleanup_tags reg c repository tags (fst counts, snd counts + 1) w''))"

definition cleanup_repository ::
  "'s registry \<Rightarrow> client \<Rightarrow> string \<Rightarrow> 's world \<Rightarrow> (exn + int \<times> int) \<times> 's world" where
  "cleanup_repository reg c repository w =
     (case list_tags reg c repository w of
        (Inl e, w') \<Rightarrow> (Inl e, w')
      | (Inr tags, w') \<Rightarrow>
          if tags = [] then (Inr (0, 0), w')
          else cleanup_tags reg c repository tags (0, 0) w')"

text \<open>
  The result dictionary keeps insertion order; assigning to a key that is present replaces
  its value in place, which is \<^const>\<open>AList.update\<close>.
\<close>

type_synonym results = "(string \<times> int \<times> int) list"

text \<open>
  The \<^verbatim>\<open>for repo in matching_repos\<close> loop: the dictionary and the two totals.
\<close>

fun cleanup_each ::
  "'s registry \<Rightarrow> client \<Rightarrow> string list \<Rightarrow> results \<times> int \<times> int \<Rightarrow> 's world
    \<Rightarrow> (exn + results \<times> int \<times> int) \<times> 's world" where
  "cleanup_each reg c [] acc w = (Inr acc, w)"
| "cleanup_each reg c (repo # repos) acc w =
     (case cleanup_repository reg c repo w of
        (Inl e, w') \<Rightarrow> (Inl e, w')
      | (Inr counts, w') \<Rightarrow>
          cleanup_each reg c repos
            (AList.update repo counts (fst acc),
             fst (snd acc) + fst counts, snd (snd acc) + snd counts) w')"

text \<open>\<^verbatim>\<open>input(...)\<close>: the next line of standard input, \<^verbatim>\<open>EOFError\<close> when there is none.\<close>

definition input :: "'s world \<Rightarrow> (exn + string) \<times> 's world" where
  "input w = (case stdin w of
                [] \<Rightarrow> (Inl EOFError, w)
              | l # ls \<Rightarrow> (Inr l, w\<lparr>stdin := ls\<rparr>))"

text \<open>Lines 214 to 229: the loop over the matched repositories and the total summary.\<close>

definition process_matching ::
  "'s registry \<Rightarrow> client \<Rightarrow> string list \<Rightarrow> 's world \<Rightarrow> (exn + results) \<times> 's world" where
  "process_matching reg c matching w =
     (case cleanup_each reg c matching ([], 0, 0) w of
        (Inl e, w') \<Rightarrow> (Inl e, w')
      | (Inr acc, w') \<Rightarrow>
          (Inr (fst acc),
           w'\<lparr>console := console w' @
                 [TotalSummary (length matching) (fst (snd acc)) (snd (snd acc))]\<rparr>))"

definition cleanup_repositories_by_pattern ::
  "regex_library \<Rightarrow> 's registry \<Rightarrow> client \<Rightarrow> string \<Rightarrow> 's world
    \<Rightarrow> (exn + results) \<times> 's world" where
  "cleanup_repositories_by_pattern re reg c pattern w =
     (case list_repositories reg c w of
        (repositories, w1) \<Rightarrow>
          if repositories = [] then (Inr [], w1)
          else (case re (''^'' @ regex_pattern pattern @ ''$'') of
                  None \<Rightarrow> (Inl PatternError, w1)
                | Some regex \<Rightarrow>
                    if matching_repos regex repositories = [] then (Inr [], w1)
                    else if \<not> dry_run c
                    then (case input w1 of
                            (Inl e, w2) \<Rightarrow> (Inl e, w2)
                          | (Inr confirm, w2) \<Rightarrow>
                              if lower confirm \<noteq> ''yes''
                              then (Inr [], w2\<lparr>console := console w2 @ [OperationCancelled]\<rparr>)
                              else process_matching reg c (matching_repos regex repositories) w2)
                    else process_matching reg c (matching_repos regex repositories) w1))"

subsection \<open>Notions the properties are stated with\<close>

text \<open>
  Between two worlds of one run, every request issued was a \<^verbatim>\<open>GET\<close> or a \<^verbatim>\<open>HEAD\<close>:
  the later log is the earlier one followed by requests none of which is a \<^verbatim>\<open>DELETE\<close>.
\<close>

definition only_reads :: "'s world \<Rightarrow> 's world \<Rightarrow> bool" where
  "only_reads w w' =
     (\<exists>new. sent w' = sent w @ new \<and> list_all (\<lambda>rq. http_method rq \<noteq> DELETE) new)"

text \<open>The three requests the source builds, by their arguments.\<close>

definition catalog_request :: "client \<Rightarrow> request" where
  "catalog_request c = mk_request c GET ''/_catalog'' None"

definition tags_request :: "client \<Rightarrow> string \<Rightarrow> request" where
  "tags_request c repository = mk_request c GET (''/'' @ repository @ ''/tags/list'') None"

definition head_request :: "client \<Rightarrow> string \<Rightarrow> string \<Rightarrow> string \<Rightarrow> request" where
  "head_request c repository tag manifest_type =
     mk_request c HEAD (''/'' @ repository @ ''/manifests/'' @ tag) (Some manifest_type)"

definition delete_request :: "client \<Rightarrow> string \<Rightarrow> string \<Rightarrow> request" where
  "delete_request c repository digest =
     mk_request c DELETE (''/'' @ repository @ ''/manifests/'' @ digest) None"

text \<open>
  What one probe of \<^verbatim>\<open>get_manifest_digest\<close> makes of the registry's answer: the digest
  is found, the next media type is tried, or the error is raised again.
\<close>

datatype verdict = Found string | Skip | Abort int

definition probe_verdict :: "outcome \<Rightarrow> verdict" where
  "probe_verdict out =
     (case out of
        NoReply \<Rightarrow> Skip
      | Reply r \<Rightarrow>
          if 400 \<le> status_code r \<and> status_code r < 600
          then (if status_code r = 404 then Skip else Abort (status_code r))
          else (case content_digest r of
                  None \<Rightarrow> Skip
                | Some digest \<Rightarrow> if digest \<noteq> [] then Found digest else Skip))"


text \<open>
  The specification's reading of the loop over the matched repositories:
  \<^verbatim>\<open>cleanup_repository\<close> is invoked on each in the listed order, and the pairs of counts
  are collected in that order.
\<close>

fun invoke_each ::
  "'s registry \<Rightarrow> client \<Rightarrow> string list \<Rightarrow> 's world \<Rightarrow> (exn + results) \<times> 's world" where
  "invoke_each reg c [] w = (Inr [], w)"
| "invoke_each reg c (repo # repos) w =
     (case cleanup_repository reg c repo w of
        (Inl e, w') \<Rightarrow> (Inl e, w')
      | (Inr counts, w') \<Rightarrow>
          (case invoke_each reg c repos w' of
             (Inl e, w'') \<Rightarrow> (Inl e, w'')
           | (Inr outs, w'') \<Rightarrow> (Inr ((repo, counts) # outs), w'')))"

subsection \<open>Concrete registries\<close>

definition reply :: "int \<Rightarrow> string option \<Rightarrow> body \<Rightarrow> outcome" where
  "reply st dg b = Reply \<lparr>status_code = st, content_digest = dg, body = b\<rparr>"

text \<open>
  A registry with the repositories \<^verbatim>\<open>bdtemp-a\<close>, \<^verbatim>\<open>bdtemp-b\<close> and \<^verbatim>\<open>keep\<close>; its state
  is the list of the digests deleted so far. The manifest of \<^verbatim>\<open>bdtemp-a:latest\<close> is served
  for the second media type only, the tag \<^verbatim>\<open>bdtemp-b:old\<close> has no manifest, and every
  other path answers 404.
\<close>

definition demo_registry :: "string list registry" where
  "demo_registry deleted rq =
     (if http_method rq = GET then
        (if url rq = ''http://r/v2/_catalog''
         then (reply 200 None
                 (JObject [''repositories'' \<mapsto> JArray [''bdtemp-a'', ''bdtemp-b'', ''keep'']]),
               deleted)
         else if url rq = ''http://r/v2/bdtemp-a/tags/list''
         then (reply 200 None
                 (JObject [''tags'' \<mapsto>
                    (if ''sha256:a'' \<in> set deleted then JNull else JArray [''latest''])]),
               deleted)
         else if url rq = ''http://r/v2/bdtemp-b/tags/list''
         then (reply 200 None (JObject [''tags'' \<mapsto> JArray [''latest'', ''old'']]), deleted)
         else (reply 404 None Unreadable, deleted))
      else if http_method rq = HEAD then
        (if url rq = ''http://r/v2/bdtemp-a/manifests/latest'' \<and>
            accept rq = Some (manifest_types ! 1)
         then (reply 200 (Some ''sha256:a'') Unreadable, deleted)
         else if url rq = ''http://r/v2/bdtemp-b/manifests/latest''
         then (reply 200 (Some ''sha256:b'') Unreadable, deleted)
         else (reply 404 None Unreadable, deleted))
      else
        (if url rq = ''http://r/v2/bdtemp-a/manifests/sha256:a''
         then (reply 202 None Unreadable, ''sha256:a'' # deleted)
         else if url rq = ''http://r/v2/bdtemp-b/manifests/sha256:b''
         then (reply 204 None Unreadable, ''sha256:b'' # deleted)
         else (reply 404 None Unreadable, deleted)))"

text \<open>
  A registry that answers 500 to everything but a \<^verbatim>\<open>HEAD\<close> asking for the second media
  type, which it answers with a digest.
\<close>

definition faulty_registry :: "unit registry" where
  "faulty_registry u rq =
     (if http_method rq = HEAD \<and> accept rq = Some (manifest_types ! 1)
      then (reply 200 (Some ''sha256:c'') Unreadable, u)
      else (reply 500 None Unreadable, u))"


text \<open>
  The first registry again, with a catalog that lists \<^verbatim>\<open>bdtemp-a\<close> twice.
\<close>

definition doubled_registry :: "string list registry" where
  "doubled_registry deleted rq =
     (if http_method rq = GET \<and> url rq = ''http://r/v2/_catalog''
      then (reply 200 None
              (JObject [''repositories'' \<mapsto> JArray [''bdtemp-a'', ''bdtemp-a'', ''bdtemp-b'']]),
            deleted)
      else demo_registry deleted rq)"

definition start :: "'s \<Rightarrow> string list \<Rightarrow> 's world" where
  "start st inp = \<lparr>registry_state = st, sent = [], stdin = inp, console = []\<rparr>"

definition demo_client :: "bool \<Rightarrow> client" where
  "demo_client dry = init ''http://r/'' None None False dry"

section \<open>Properties of the pattern translation\<close>

lemma regex_pattern_charwise:
  "regex_pattern p =
     concat (map (\<lambda>c. if c = CHR ''*'' then ''.*'' else if c = CHR ''?'' then ''.'' else [c]) p)"
  unfolding regex_pattern_def by (induction p) auto

lemma re_compile_snoc_dollar:
  "re_compile (s @ ''$'') = map_option (\<lambda>rx. rx @ [Eol]) (re_compile s)"
proof (induction s rule: re_compile.induct)
  case 1
  show ?case by simp
next
  case (2 c cs)
  show ?case
  proof (cases cs)
    case Nil
    with 2 show ?thesis by (simp add: metachar_def option.map_comp comp_def)
  next
    case (Cons d ds)
    with 2 show ?thesis by (simp add: option.map_comp comp_def)
  qed
qed

lemma matches_from_Eol:
  "newline \<notin> set s \<Longrightarrow> matches_from False (rx @ [Eol]) st s = matches_from True rx st s"
proof (induction True rx st s rule: matches_from.induct)
  case (1 st s)
  then show ?case by (cases s) auto
qed auto

lemma accepts_a_dot_b: "pattern_accepts ''a.b'' ''axb'' = Some True"
  by code_simp

lemma glob_rejects_a_dot_b: "\<not> glob_match ''a.b'' ''axb''"
  by code_simp

lemma accepts_across_slash: "pattern_accepts ''bdtemp*'' ''bdtemp/sub'' = Some True"
  by code_simp

text \<open>
  C10. The translation rewrites \<^verbatim>\<open>*\<close> to \<^verbatim>\<open>.*\<close> and \<^verbatim>\<open>?\<close> to \<^verbatim>\<open>.\<close> and copies every
  other character of the pattern unchanged, regular-expression metacharacters included.
  So the pattern \<^verbatim>\<open>a.b\<close> accepts the name \<^verbatim>\<open>axb\<close>, which the shell's reading of the
  pattern rejects, and \<^verbatim>\<open>bdtemp*\<close> accepts \<^verbatim>\<open>bdtemp/sub\<close>: the star crosses the slash.
\<close>

theorem translation_escapes_nothing:
  "regex_pattern p =
     concat (map (\<lambda>c. if c = CHR ''*'' then ''.*'' else if c = CHR ''?'' then ''.'' else [c]) p)
   \<and> pattern_accepts ''a.b'' ''axb'' = Some True
   \<and> \<not> glob_match ''a.b'' ''axb''
   \<and> pattern_accepts ''bdtemp*'' ''bdtemp/sub'' = Some True"
  using regex_pattern_charwise accepts_a_dot_b glob_rejects_a_dot_b accepts_across_slash
  by blast

theorem translation_escapes_nothing_witness:
  "regex_pattern ''a.b*'' = ''a.b.*'' \<and> pattern_accepts ''a.b'' ''axb'' = Some True"
  using translation_escapes_nothing [of "''a.b*''"] by simp

lemma accepts_iff_fullmatch:
  assumes "newline \<notin> set repo"
  shows "pattern_accepts pattern repo = pattern_fullmatches pattern repo"
proof -
  have "compile_pattern pattern =
          map_option (\<lambda>rx. Bol # rx @ [Eol]) (re_compile (regex_pattern pattern))"
    by (simp add: compile_pattern_def re_compile_snoc_dollar option.map_comp comp_def)
  then show ?thesis
    using assms by (cases "re_compile (regex_pattern pattern)")
      (simp_all add: pattern_accepts_def pattern_fullmatches_def re_match_def re_fullmatch_def
         matches_from_Eol)
qed

lemma regex_pattern_Cons:
  "regex_pattern (c # p) =
     (if c = CHR ''*'' then ''.*'' else if c = CHR ''?'' then ''.'' else [c]) @ regex_pattern p"
  by (simp add: regex_pattern_charwise)

lemma regex_pattern_no_leading_star:
  "regex_pattern p = [] \<or> hd (regex_pattern p) \<noteq> CHR ''*''"
  by (cases p) (auto simp: regex_pattern_Cons regex_pattern_def)

lemma re_compile_atom:
  assumes "a = CHR ''.'' \<or> \<not> metachar a" and "rest = [] \<or> hd rest \<noteq> CHR ''*''"
  shows "re_compile (a # rest) =
           map_option (Cons (One (if a = CHR ''.'' then Dot else Lit a))) (re_compile rest)"
  using assms by (cases rest) (auto simp: metachar_def)

lemma re_compile_dot_star:
  "re_compile (''.*'' @ rest) = map_option (Cons (Star Dot)) (re_compile rest)"
  by (simp add: metachar_def)

lemma wildcard_pattern_compiles:
  "wildcard_pattern p \<Longrightarrow> \<exists>rx. re_compile (regex_pattern p) = Some rx"
proof (induction p)
  case Nil
  show ?case by (simp add: regex_pattern_def)
next
  case (Cons c p)
  from Cons obtain rx where rx: "re_compile (regex_pattern p) = Some rx"
    by (auto simp: wildcard_pattern_def)
  from Cons.prems have c: "c = CHR ''*'' \<or> c = CHR ''?'' \<or> c = CHR ''.'' \<or> \<not> metachar c"
    by (auto simp: wildcard_pattern_def)
  note ns = regex_pattern_no_leading_star [of p]
  show ?case
  proof (cases "c = CHR ''*''")
    case True
    then have "regex_pattern (c # p) = ''.*'' @ regex_pattern p"
      by (simp add: regex_pattern_Cons)
    with rx show ?thesis by (simp only: re_compile_dot_star) simp
  next
    case star: False
    show ?thesis
    proof (cases "c = CHR ''?''")
      case True
      then have "regex_pattern (c # p) = CHR ''.'' # regex_pattern p"
        by (simp add: regex_pattern_Cons)
      with rx ns re_compile_atom [of "CHR ''.''" "regex_pattern p"] show ?thesis by simp
    next
      case False
      with star have e: "regex_pattern (c # p) = c # regex_pattern p"
        by (simp add: regex_pattern_Cons)
      from star False c have "c = CHR ''.'' \<or> \<not> metachar c" by blast
      from re_compile_atom [OF this ns] rx e show ?thesis by simp
    qed
  qed
qed

text \<open>
  For a pattern made of the wildcards \<^verbatim>\<open>*\<close> and \<^verbatim>\<open>?\<close>, dots and characters that are
  no metacharacters, and a name that holds no newline, the acceptance test of the source
  and the full match of the translation give the same answer.
\<close>

theorem accepts_is_fullmatch_without_newline:
  "wildcard_pattern pattern \<Longrightarrow> newline \<notin> set repo \<Longrightarrow>
     pattern_accepts pattern repo = pattern_fullmatches pattern repo
     \<and> pattern_accepts pattern repo \<noteq> None"
proof -
  assume w: "wildcard_pattern pattern" and n: "newline \<notin> set repo"
  from wildcard_pattern_compiles [OF w] obtain rx where
    "re_compile (regex_pattern pattern) = Some rx" by blast
  then have "pattern_fullmatches pattern repo \<noteq> None"
    by (simp add: pattern_fullmatches_def)
  with accepts_iff_fullmatch [OF n, of pattern] show ?thesis by simp
qed

theorem accepts_is_fullmatch_without_newline_witness:
  "wildcard_pattern ''bdtemp*'' \<and> newline \<notin> set ''bdtemp-1''
   \<and> pattern_accepts ''bdtemp*'' ''bdtemp-1'' = pattern_fullmatches ''bdtemp*'' ''bdtemp-1''
   \<and> pattern_accepts ''bdtemp*'' ''bdtemp-1'' = Some True"
proof -
  have w: "wildcard_pattern ''bdtemp*''" by code_simp
  have h: "newline \<notin> set ''bdtemp-1''" by code_simp
  have e: "pattern_accepts ''bdtemp*'' ''bdtemp-1'' = Some True" by code_simp
  show ?thesis
    using w h e accepts_is_fullmatch_without_newline [OF w h] by simp
qed

text \<open>
  C2. The acceptance test is meant to hold exactly when the name full-matches the
  translation of the pattern. On the name \<^verbatim>\<open>bdtemp\<close> followed by a newline the source
  accepts under the pattern \<^verbatim>\<open>bdtemp\<close>, although the name does not full-match the
  translation (nor the pattern, read as a shell pattern): \<^verbatim>\<open>$\<close> also matches just before
  a newline that ends the string. The examples of the claim hold: \<^verbatim>\<open>bdtemp*\<close> accepts
  \<^verbatim>\<open>bdtemp\<close> and \<^verbatim>\<open>bdtemp-1\<close> and rejects \<^verbatim>\<open>xbdtemp1\<close>.
\<close>

theorem trailing_newline_is_accepted:
  "pattern_accepts ''bdtemp'' (''bdtemp'' @ [newline]) = Some True
   \<and> pattern_fullmatches ''bdtemp'' (''bdtemp'' @ [newline]) = Some False
   \<and> re_fullmatch (the (compile_pattern ''bdtemp'')) (''bdtemp'' @ [newline]) = False
   \<and> glob_match ''bdtemp'' (''bdtemp'' @ [newline]) = False
   \<and> pattern_accepts ''bdtemp*'' ''bdtemp'' = Some True
   \<and> pattern_accepts ''bdtemp*'' ''bdtemp-1'' = Some True
   \<and> pattern_accepts ''bdtemp*'' ''xbdtemp1'' = Some False"
  by code_simp

theorem trailing_newline_is_accepted_witness:
  "pattern_accepts ''bdtemp'' (''bdtemp'' @ [newline])
     \<noteq> pattern_fullmatches ''bdtemp'' (''bdtemp'' @ [newline])"
  using trailing_newline_is_accepted by simp

section \<open>Properties of the requests issued\<close>




lemma only_reads_stdin: "only_reads w (w\<lparr>stdin := k\<rparr>)"
  by (simp add: only_reads_def)

lemma make_request_world:
  "snd (make_request reg c m path acc w) =
     w\<lparr>registry_state := snd (reg (registry_state w) (mk_request c m path acc)),
       sent := sent w @ [mk_request c m path acc]\<rparr>"
  by (simp add: make_request_def split: prod.splits)



lemma list_repositories_world:
  "snd (list_repositories reg c w) = snd (make_request reg c GET ''/_catalog'' None w)"
  by (simp add: list_repositories_def split: prod.splits sum.splits body.splits option.splits jvalue.splits)














lemma cleanup_tags_counts:
  "cleanup_tags reg c repo tags counts w = (Inr (d, f), w') \<Longrightarrow>
     d + f = fst counts + snd counts + int (length tags) \<and> fst counts \<le> d \<and> snd counts \<le> f"
proof (induction tags arbitrary: counts w)
  case Nil
  then show ?case by auto
next
  case (Cons tag tags)
  obtain x w1 where g: "get_manifest_digest reg c repo tag w = (x, w1)"
    by (cases "get_manifest_digest reg c repo tag w")
  show ?case
  proof (cases x)
    case (Inl e)
    with Cons.prems g show ?thesis by simp
  next
    case (Inr dg)
    show ?thesis
    proof (cases dg)
      case None
      with Cons.prems g Inr
      have "cleanup_tags reg c repo tags (fst counts, snd counts + 1) w1 = (Inr (d, f), w')"
        by simp
      from Cons.IH [OF this] show ?thesis by simp
    next
      case (Some digest)
      obtain y w2 where dm: "delete_manifest reg c repo digest w1 = (y, w2)"
        by (cases "delete_manifest reg c repo digest w1")
      show ?thesis
      proof (cases y)
        case (Inl e)
        with Cons.prems g Inr Some dm show ?thesis by simp
      next
        case yr: (Inr ok)
        show ?thesis
        proof (cases ok)
          case True
          with Cons.prems g Inr Some dm yr
          have "cleanup_tags reg c repo tags (fst counts + 1, snd counts) w2 = (Inr (d, f), w')"
            by simp
          from Cons.IH [OF this] show ?thesis by simp
        next
          case False
          with Cons.prems g Inr Some dm yr
          have "cleanup_tags reg c repo tags (fst counts, snd counts + 1) w2 = (Inr (d, f), w')"
            by simp
          from Cons.IH [OF this] show ?thesis by simp
        qed
      qed
    qed
  qed
qed



text \<open>
  C6. Outside dry-run mode \<^verbatim>\<open>delete_manifest\<close> issues one \<^verbatim>\<open>DELETE\<close> and always returns
  a boolean, never an exception: true exactly when the registry replies with status 202 or
  204, false for any other reply and when the request fails at network level.
\<close>

theorem delete_manifest_result:
  assumes "\<not> dry_run c"
    and "reg (registry_state w) (delete_request c repo digest) = (out, st)"
  shows "delete_manifest reg c repo digest w =
     (Inr (case out of
             NoReply \<Rightarrow> False
           | Reply r \<Rightarrow> status_code r = 202 \<or> status_code r = 204),
      w\<lparr>registry_state := st, sent := sent w @ [delete_request c repo digest]\<rparr>)"
  using assms
  by (cases out)
    (auto simp: delete_manifest_def make_request_def delete_request_def)

theorem delete_manifest_result_witness:
  "\<not> dry_run (demo_client False)
   \<and> fst (delete_manifest demo_registry (demo_client False) ''bdtemp-a'' ''sha256:a''
            (start [] [])) = Inr True
   \<and> fst (delete_manifest demo_registry (demo_client False) ''keep'' ''sha256:k''
            (start [] [])) = Inr False"
proof -
  have h: "\<not> dry_run (demo_client False)" by code_simp
  have r1: "demo_registry (registry_state (start [] []))
              (delete_request (demo_client False) ''bdtemp-a'' ''sha256:a'')
            = (reply 202 None Unreadable, [''sha256:a''])"
    by (simp add: demo_registry_def delete_request_def mk_request_def demo_client_def init_def
        rstrip_slash_def start_def)
  have r2: "demo_registry (registry_state (start [] []))
              (delete_request (demo_client False) ''keep'' ''sha256:k'')
            = (reply 404 None Unreadable, [])"
    by (simp add: demo_registry_def delete_request_def mk_request_def demo_client_def init_def
        rstrip_slash_def start_def)
  show ?thesis
    using h
      delete_manifest_result [where reg = demo_registry and w = "start [] []", OF h r1]
      delete_manifest_result [where reg = demo_registry and w = "start [] []", OF h r2]
    by (simp add: reply_def)
qed

text \<open>
  C9. When \<^verbatim>\<open>cleanup_repository\<close> returns normally, its two counts add up to the number of
  tags that \<^verbatim>\<open>list_tags\<close> returned, and neither count is negative.
\<close>

theorem counts_add_up_to_tags:
  assumes "cleanup_repository reg c repo w = (Inr (d, f), w')"
    and "list_tags reg c repo w = (Inr tags, w1)"
  shows "d + f = int (length tags) \<and> 0 \<le> d \<and> 0 \<le> f"
proof (cases "tags = []")
  case True
  with assms show ?thesis by (simp add: cleanup_repository_def)
next
  case False
  with assms have "cleanup_tags reg c repo tags (0, 0) w1 = (Inr (d, f), w')"
    by (simp add: cleanup_repository_def)
  from cleanup_tags_counts [OF this] show ?thesis by simp
qed

theorem counts_add_up_to_tags_witness:
  "fst (cleanup_repository demo_registry (demo_client False) ''bdtemp-b'' (start [] []))
     = Inr (1, 1)
   \<and> fst (list_tags demo_registry (demo_client False) ''bdtemp-b'' (start [] []))
     = Inr [''latest'', ''old'']
   \<and> (1::int) + 1 = int (length [''latest'', ''old''])"
proof -
  let ?w = "start [] [] :: string list world"
  let ?c = "demo_client False"
  have a: "fst (cleanup_repository demo_registry ?c ''bdtemp-b'' ?w) = Inr (1, 1)"
    by code_simp
  have b: "fst (list_tags demo_registry ?c ''bdtemp-b'' ?w) = Inr [''latest'', ''old'']"
    by code_simp
  from a have a': "cleanup_repository demo_registry ?c ''bdtemp-b'' ?w
      = (Inr (1, 1), snd (cleanup_repository demo_registry ?c ''bdtemp-b'' ?w))"
    by (simp add: prod_eq_iff)
  from b have b': "list_tags demo_registry ?c ''bdtemp-b'' ?w
      = (Inr [''latest'', ''old''], snd (list_tags demo_registry ?c ''bdtemp-b'' ?w))"
    by (simp add: prod_eq_iff)
  from counts_add_up_to_tags [OF a' b'] a b show ?thesis by blast
qed

section \<open>Listing tags and resolving digests\<close>

lemma list_tags_cases:
  assumes "reg (registry_state w) (tags_request c repo) = (out, st)"
  shows "list_tags reg c repo w =
     ((case out of
         NoReply \<Rightarrow> Inr []
       | Reply r \<Rightarrow>
           if 400 \<le> status_code r \<and> status_code r < 600
           then (if status_code r = 404 then Inr [] else Inl (HTTPError (status_code r)))
           else (case body r of
                   Unreadable \<Rightarrow> Inr []
                 | JObject data \<Rightarrow>
                     (case data ''tags'' of
                        None \<Rightarrow> Inr []
                      | Some JNull \<Rightarrow> Inr []
                      | Some (JArray tags) \<Rightarrow> Inr tags))),
      w\<lparr>registry_state := st, sent := sent w @ [tags_request c repo]\<rparr>)"
  using assms
  by (cases out)
    (auto simp: list_tags_def make_request_def tags_request_def
      split: body.splits option.splits jvalue.splits)

text \<open>
  C4, as stated, fails: a registry that answers the tag list with status 500 makes
  \<^verbatim>\<open>list_tags\<close> raise the \<^verbatim>\<open>HTTPError\<close> again, and \<^verbatim>\<open>cleanup_repository\<close> with it.
\<close>

theorem list_tags_raises_on_500:
  "fst (list_tags faulty_registry (demo_client False) ''ghost'' (start () []))
     = Inl (HTTPError 500)
   \<and> fst (cleanup_repository faulty_registry (demo_client False) ''ghost'' (start () []))
     = Inl (HTTPError 500)"
  by code_simp

text \<open>
  C4, amended. \<^verbatim>\<open>list_tags\<close> issues one \<^verbatim>\<open>GET\<close>. It returns the empty list when the
  request fails at network level, when the registry answers 404, and when the body of a
  successful answer cannot be read or holds no tags (the field is absent, null or empty);
  otherwise it returns the tags of the body. An answer with another status from 400 to 599
  is raised again as \<^verbatim>\<open>HTTPError\<close>. On a 404 \<^verbatim>\<open>cleanup_repository\<close> returns \<open>(0, 0)\<close> and has
  issued that one \<^verbatim>\<open>GET\<close> only.
\<close>

theorem list_tags_outcomes:
  assumes "reg (registry_state w) (tags_request c repo) = (out, st)"
  shows "snd (list_tags reg c repo w)
           = w\<lparr>registry_state := st, sent := sent w @ [tags_request c repo]\<rparr>
     \<and> (out = NoReply \<longrightarrow> fst (list_tags reg c repo w) = Inr [])
     \<and> (\<forall>r. out = Reply r \<and> status_code r = 404 \<longrightarrow>
           fst (list_tags reg c repo w) = Inr []
           \<and> cleanup_repository reg c repo w
               = (Inr (0, 0), w\<lparr>registry_state := st, sent := sent w @ [tags_request c repo]\<rparr>))
     \<and> (\<forall>r. out = Reply r \<and> 400 \<le> status_code r \<and> status_code r < 600
             \<and> status_code r \<noteq> 404 \<longrightarrow>
           fst (list_tags reg c repo w) = Inl (HTTPError (status_code r)))
     \<and> (\<forall>r. out = Reply r \<and> \<not> (400 \<le> status_code r \<and> status_code r < 600)
             \<and> body r = Unreadable \<longrightarrow>
           fst (list_tags reg c repo w) = Inr [])
     \<and> (\<forall>r data. out = Reply r \<and> \<not> (400 \<le> status_code r \<and> status_code r < 600)
             \<and> body r = JObject data
             \<and> (data ''tags'' = None \<or> data ''tags'' = Some JNull
                  \<or> data ''tags'' = Some (JArray [])) \<longrightarrow>
           fst (list_tags reg c repo w) = Inr [])
     \<and> (\<forall>r data tags. out = Reply r \<and> \<not> (400 \<le> status_code r \<and> status_code r < 600)
             \<and> body r = JObject data \<and> data ''tags'' = Some (JArray tags) \<longrightarrow>
           fst (list_tags reg c repo w) = Inr tags)"
  using list_tags_cases [where reg = reg and w = w, OF assms]
  by (auto simp add: cleanup_repository_def)

theorem list_tags_outcomes_witness:
  "fst (list_tags demo_registry (demo_client False) ''ghost'' (start [] [])) = Inr []
   \<and> fst (cleanup_repository demo_registry (demo_client False) ''ghost'' (start [] []))
       = Inr (0, 0)
   \<and> sent (snd (cleanup_repository demo_registry (demo_client False) ''ghost'' (start [] [])))
       = [tags_request (demo_client False) ''ghost'']"
proof -
  have r: "demo_registry (registry_state (start [] []))
             (tags_request (demo_client False) ''ghost'')
           = (Reply \<lparr>status_code = 404, content_digest = None, body = Unreadable\<rparr>, [])"
    by (simp add: demo_registry_def tags_request_def mk_request_def demo_client_def init_def
        rstrip_slash_def start_def reply_def)
  show ?thesis
    using list_tags_outcomes [where reg = demo_registry and w = "start [] []", OF r]
    by (simp add: start_def)
qed

lemma probe_step:
  assumes "reg (registry_state w) (head_request c repo tag mt) = (out, st)"
  shows "probe_types reg c repo tag (mt # rest) w =
     (case probe_verdict out of
        Found d \<Rightarrow>
          (Inr (Some d), w\<lparr>registry_state := st, sent := sent w @ [head_request c repo tag mt]\<rparr>)
      | Skip \<Rightarrow>
          probe_types reg c repo tag rest
            (w\<lparr>registry_state := st, sent := sent w @ [head_request c repo tag mt]\<rparr>)
      | Abort n \<Rightarrow>
          (Inl (HTTPError n),
           w\<lparr>registry_state := st, sent := sent w @ [head_request c repo tag mt]\<rparr>))"
  using assms
  by (cases out)
    (auto simp: make_request_def head_request_def probe_verdict_def split: option.splits)

text \<open>
  C5, as stated, fails: when the first media type is answered with status 500 the error is
  raised again, although the second media type alone would answer with a digest.
\<close>

theorem digest_lookup_raises_on_500:
  "fst (get_manifest_digest faulty_registry (demo_client False) ''app'' ''latest''
          (start () [])) = Inl (HTTPError 500)
   \<and> probe_verdict
       (fst (faulty_registry ()
          (head_request (demo_client False) ''app'' ''latest'' (manifest_types ! 1))))
       = Found ''sha256:c''"
  by code_simp

text \<open>
  C5, amended. \<^verbatim>\<open>get_manifest_digest\<close> probes the media types schema2, schema1 and OCI in
  that order with \<^verbatim>\<open>HEAD\<close> requests. A probe answered below 400 (or from 600) with a
  non-empty \<^verbatim>\<open>Docker-Content-Digest\<close> header ends the search with that digest; a probe that
  fails at network level, is answered 404, or carries no digest passes to the next type;
  a probe answered with another status from 400 to 599 raises that \<^verbatim>\<open>HTTPError\<close> again.
  When all three probes pass, the result is none. The requests issued are the probes made,
  in order.
\<close>

theorem get_manifest_digest_probes:
  assumes "reg (registry_state w) (head_request c repo tag (manifest_types ! 0)) = (o1, s1)"
    and "reg s1 (head_request c repo tag (manifest_types ! 1)) = (o2, s2)"
    and "reg s2 (head_request c repo tag (manifest_types ! 2)) = (o3, s3)"
  shows "manifest_types =
           [''application/vnd.docker.distribution.manifest.v2+json'',
            ''application/vnd.docker.distribution.manifest.v1+json'',
            ''application/vnd.oci.image.manifest.v1+json'']
     \<and> fst (get_manifest_digest reg c repo tag w) =
         (case probe_verdict o1 of
            Found d \<Rightarrow> Inr (Some d)
          | Abort n \<Rightarrow> Inl (HTTPError n)
          | Skip \<Rightarrow>
              (case probe_verdict o2 of
                 Found d \<Rightarrow> Inr (Some d)
               | Abort n \<Rightarrow> Inl (HTTPError n)
               | Skip \<Rightarrow>
                   (case probe_verdict o3 of
                      Found d \<Rightarrow> Inr (Some d)
                    | Abort n \<Rightarrow> Inl (HTTPError n)
                    | Skip \<Rightarrow> Inr None)))
     \<and> sent (snd (get_manifest_digest reg c repo tag w)) =
         sent w @ take (case probe_verdict o1 of
                          Skip \<Rightarrow> (case probe_verdict o2 of Skip \<Rightarrow> 3 | Found d \<Rightarrow> 2 | Abort n \<Rightarrow> 2)
                        | Found d \<Rightarrow> 1
                        | Abort n \<Rightarrow> 1)
                  (map (head_request c repo tag) manifest_types)"
proof -
  let ?m1 = "manifest_types ! 0" and ?m2 = "manifest_types ! 1" and ?m3 = "manifest_types ! 2"
  let ?w1 = "w\<lparr>registry_state := s1, sent := sent w @ [head_request c repo tag ?m1]\<rparr>"
  let ?w2 = "?w1\<lparr>registry_state := s2, sent := sent ?w1 @ [head_request c repo tag ?m2]\<rparr>"
  have mt: "manifest_types = [?m1, ?m2, ?m3]" by (simp add: manifest_types_def)
  have a2: "reg (registry_state ?w1) (head_request c repo tag ?m2) = (o2, s2)"
    using assms(2) by simp
  have a3: "reg (registry_state ?w2) (head_request c repo tag ?m3) = (o3, s3)"
    using assms(3) by simp
  have g: "get_manifest_digest reg c repo tag w = probe_types reg c repo tag [?m1, ?m2, ?m3] w"
    using mt by (simp add: get_manifest_digest_def)
  have p1: "probe_types reg c repo tag [?m1, ?m2, ?m3] w =
     (case probe_verdict o1 of
        Found d \<Rightarrow> (Inr (Some d), ?w1)
      | Skip \<Rightarrow> probe_types reg c repo tag [?m2, ?m3] ?w1
      | Abort n \<Rightarrow> (Inl (HTTPError n), ?w1))"
    by (rule probe_step [where reg = reg and w = w, OF assms(1)])
  have p2: "probe_types reg c repo tag [?m2, ?m3] ?w1 =
     (case probe_verdict o2 of
        Found d \<Rightarrow> (Inr (Some d), ?w2)
      | Skip \<Rightarrow> probe_types reg c repo tag [?m3] ?w2
      | Abort n \<Rightarrow> (Inl (HTTPError n), ?w2))"
    by (rule probe_step [where reg = reg and w = "?w1", OF a2])
  have p3: "probe_types reg c repo tag [?m3] ?w2 =
     (case probe_verdict o3 of
        Found d \<Rightarrow>
          (Inr (Some d),
           ?w2\<lparr>registry_state := s3, sent := sent ?w2 @ [head_request c repo tag ?m3]\<rparr>)
      | Skip \<Rightarrow>
          probe_types reg c repo tag []
            (?w2\<lparr>registry_state := s3, sent := sent ?w2 @ [head_request c repo tag ?m3]\<rparr>)
      | Abort n \<Rightarrow>
          (Inl (HTTPError n),
           ?w2\<lparr>registry_state := s3, sent := sent ?w2 @ [head_request c repo tag ?m3]\<rparr>))"
    by (rule probe_step [where reg = reg and w = "?w2", OF a3])
  have res: "fst (get_manifest_digest reg c repo tag w) =
         (case probe_verdict o1 of
            Found d \<Rightarrow> Inr (Some d)
          | Abort n \<Rightarrow> Inl (HTTPError n)
          | Skip \<Rightarrow>
              (case probe_verdict o2 of
                 Found d \<Rightarrow> Inr (Some d)
               | Abort n \<Rightarrow> Inl (HTTPError n)
               | Skip \<Rightarrow>
                   (case probe_verdict o3 of
                      Found d \<Rightarrow> Inr (Some d)
                    | Abort n \<Rightarrow> Inl (HTTPError n)
                    | Skip \<Rightarrow> Inr None)))"
    unfolding g p1 p2 p3 by (simp split: verdict.splits)
  have log: "sent (snd (get_manifest_digest reg c repo tag w)) =
         sent w @ take (case probe_verdict o1 of
                          Skip \<Rightarrow> (case probe_verdict o2 of Skip \<Rightarrow> 3 | Found d \<Rightarrow> 2 | Abort n \<Rightarrow> 2)
                        | Found d \<Rightarrow> 1
                        | Abort n \<Rightarrow> 1)
                  (map (head_request c repo tag) [?m1, ?m2, ?m3])"
    unfolding g p1 p2 p3 by (simp split: verdict.splits)
  from res log mt show ?thesis by (simp add: manifest_types_def)
qed

theorem get_manifest_digest_probes_witness:
  "fst (get_manifest_digest demo_registry (demo_client False) ''bdtemp-a'' ''latest''
          (start [] [])) = Inr (Some ''sha256:a'')
   \<and> length (sent (snd (get_manifest_digest demo_registry (demo_client False) ''bdtemp-a''
          ''latest'' (start [] [])))) = 2"
proof -
  have r1: "demo_registry (registry_state (start [] []))
              (head_request (demo_client False) ''bdtemp-a'' ''latest'' (manifest_types ! 0))
            = (reply 404 None Unreadable, [])"
    by (simp add: demo_registry_def head_request_def mk_request_def demo_client_def init_def
        rstrip_slash_def start_def manifest_types_def)
  have r2: "demo_registry []
              (head_request (demo_client False) ''bdtemp-a'' ''latest'' (manifest_types ! 1))
            = (reply 200 (Some ''sha256:a'') Unreadable, [])"
    by (simp add: demo_registry_def head_request_def mk_request_def demo_client_def init_def
        rstrip_slash_def manifest_types_def)
  have r3: "demo_registry []
              (head_request (demo_client False) ''bdtemp-a'' ''latest'' (manifest_types ! 2))
            = (reply 404 None Unreadable, [])"
    by (simp add: demo_registry_def head_request_def mk_request_def demo_client_def init_def
        rstrip_slash_def manifest_types_def)
  show ?thesis
    using get_manifest_digest_probes [where reg = demo_registry and w = "start [] []",
        OF r1 r2 r3]
    by (simp add: reply_def probe_verdict_def start_def manifest_types_def)
qed

section \<open>Cleaning one repository, and the repositories a pattern matches\<close>

lemma list_repositories_frame:
  assumes "list_repositories reg c w = (repositories, w1)"
  shows "sent w1 = sent w @ [catalog_request c]" and "stdin w1 = stdin w"
    and "console w1 = console w"
proof -
  have "w1 = snd (make_request reg c GET ''/_catalog'' None w)"
    using assms list_repositories_world [of reg c w] by simp
  then have "w1 = w\<lparr>registry_state := snd (reg (registry_state w) (catalog_request c)),
                     sent := sent w @ [catalog_request c]\<rparr>"
    by (simp add: make_request_world catalog_request_def)
  then show "sent w1 = sent w @ [catalog_request c]" and "stdin w1 = stdin w"
    and "console w1 = console w"
    by simp_all
qed

text \<open>
  C3. For every pattern and whatever expression \<^verbatim>\<open>re\<close> compiles its translation to:
  outside dry-run mode, when at least one repository matches and the line read from
  standard input is not \<^verbatim>\<open>yes\<close> in any mix of cases, the operation returns the empty
  mapping; the world it leaves is the one after the catalog listing, with the line consumed
  and the cancellation message printed: the catalog \<^verbatim>\<open>GET\<close> is the only request issued,
  so no \<^verbatim>\<open>DELETE\<close> is made and no repository is cleaned.
\<close>

theorem refused_confirmation_deletes_nothing:
  assumes "\<not> dry_run c"
    and "list_repositories reg c w = (repositories, w1)"
    and "re (''^'' @ regex_pattern pattern @ ''$'') = Some regex"
    and "matching_repos regex repositories \<noteq> []"
    and "stdin w = answer # rest"
    and "lower answer \<noteq> ''yes''"
  shows "cleanup_repositories_by_pattern re reg c pattern w
           = (Inr [], w1\<lparr>stdin := rest, console := console w @ [OperationCancelled]\<rparr>)
     \<and> sent w1 = sent w @ [catalog_request c]"
proof -
  have ne: "repositories \<noteq> []"
    using assms(4) by (auto simp: matching_repos_def)
  have inp: "input w1 = (Inr answer, w1\<lparr>stdin := rest\<rparr>)"
    using assms(5) list_repositories_frame(2) [OF assms(2)] by (simp add: input_def)
  have "cleanup_repositories_by_pattern re reg c pattern w
          = (Inr [], w1\<lparr>stdin := rest, console := console w1 @ [OperationCancelled]\<rparr>)"
    using assms(1,2,3,4,6) ne inp by (simp add: cleanup_repositories_by_pattern_def)
  then show ?thesis
    using list_repositories_frame [OF assms(2)] by simp
qed

theorem refused_confirmation_deletes_nothing_witness:
  "\<not> dry_run (demo_client False)
   \<and> lower ''Yes please'' \<noteq> ''yes''
   \<and> fst (cleanup_repositories_by_pattern fragment_re demo_registry (demo_client False)
            ''bdtemp*'' (start [] [''Yes please''])) = Inr []
   \<and> sent (snd (cleanup_repositories_by_pattern fragment_re demo_registry (demo_client False)
            ''bdtemp*'' (start [] [''Yes please''])))
       = [catalog_request (demo_client False)]"
proof -
  let ?w = "start [] [''Yes please''] :: string list world"
  let ?c = "demo_client False"
  let ?rx = "[Bol, One (Lit CHR ''b''), One (Lit CHR ''d''), One (Lit CHR ''t''),
              One (Lit CHR ''e''), One (Lit CHR ''m''), One (Lit CHR ''p''), Star Dot, Eol]"
  have h1: "\<not> dry_run ?c" by code_simp
  have "fst (list_repositories demo_registry ?c ?w) = [''bdtemp-a'', ''bdtemp-b'', ''keep'']"
    by code_simp
  then have h2: "list_repositories demo_registry ?c ?w
      = ([''bdtemp-a'', ''bdtemp-b'', ''keep''], snd (list_repositories demo_registry ?c ?w))"
    by (simp add: prod_eq_iff)
  have "re_compile (''^'' @ regex_pattern ''bdtemp*'' @ ''$'') = Some ?rx" by code_simp
  then have h3: "fragment_re (''^'' @ regex_pattern ''bdtemp*'' @ ''$'') = Some (re_match ?rx)"
    by (simp add: fragment_re_def)
  have h4: "matching_repos (re_match ?rx) [''bdtemp-a'', ''bdtemp-b'', ''keep''] \<noteq> []"
    by code_simp
  have h5: "stdin ?w = ''Yes please'' # []" by (simp add: start_def)
  have h6: "lower ''Yes please'' \<noteq> ''yes''" by code_simp
  show ?thesis
    using h1 h6
      refused_confirmation_deletes_nothing
        [where reg = demo_registry and re = fragment_re, OF h1 h2 h3 h4 h5 h6]
    by (simp add: start_def)
qed







lemma update_new_key: "k \<notin> fst ` set al \<Longrightarrow> AList.update k v al = al @ [(k, v)]"
  by (induction al) auto

lemma fold_update_keys:
  "fst ` set (fold (\<lambda>p. AList.update (fst p) (snd p)) outs m) = fst ` set m \<union> fst ` set outs"
  by (induction outs arbitrary: m) (auto simp: dom_update)

lemma map_of_update_add:
  "map_of (AList.update (fst p) (snd p) m) = map_of m ++ map_of [p]"
  by (cases p) (simp add: update_conv')

lemma fold_update_map_of:
  "map_of (fold (\<lambda>p. AList.update (fst p) (snd p)) outs m) = map_of m ++ map_of (rev outs)"
proof (induction outs arbitrary: m)
  case Nil
  show ?case by simp
next
  case (Cons p outs)
  have "map_of (fold (\<lambda>p. AList.update (fst p) (snd p)) (p # outs) m)
          = map_of (AList.update (fst p) (snd p) m) ++ map_of (rev outs)"
    using Cons.IH [of "AList.update (fst p) (snd p) m"] by simp
  also have "\<dots> = (map_of m ++ map_of [p]) ++ map_of (rev outs)"
    by (simp only: map_of_update_add)
  also have "\<dots> = map_of m ++ map_of (rev (p # outs))"
    by (simp del: map_of.simps add: map_add_assoc)
  finally show ?case .
qed

lemma fold_update_distinct:
  "distinct (map fst (m @ outs)) \<Longrightarrow>
     fold (\<lambda>p. AList.update (fst p) (snd p)) outs m = m @ outs"
proof (induction outs arbitrary: m)
  case Nil
  show ?case by simp
next
  case (Cons p outs)
  from Cons.prems have new: "fst p \<notin> fst ` set m" by auto
  from Cons.prems have "distinct (map fst ((m @ [p]) @ outs))" by auto
  from Cons.IH [OF this] new show ?case by (simp add: update_new_key)
qed

lemma invoke_each_keys:
  "invoke_each reg c repos w = (Inr outs, w') \<Longrightarrow> map fst outs = repos"
proof (induction repos arbitrary: w outs)
  case Nil
  then show ?case by simp
next
  case (Cons repo repos)
  then show ?case
    by (auto split: prod.splits sum.splits)
qed

lemma cleanup_each_invoke:
  "cleanup_each reg c repos acc w =
     (case invoke_each reg c repos w of
        (Inl e, w') \<Rightarrow> (Inl e, w')
      | (Inr outs, w') \<Rightarrow>
          (Inr (fold (\<lambda>p. AList.update (fst p) (snd p)) outs (fst acc),
                fst (snd acc) + sum_list (map (\<lambda>p. fst (snd p)) outs),
                snd (snd acc) + sum_list (map (\<lambda>p. snd (snd p)) outs)), w'))"
proof (induction repos arbitrary: acc w)
  case Nil
  show ?case by simp
next
  case (Cons repo repos)
  show ?case
    by (simp add: Cons.IH add.assoc split: prod.splits sum.splits)
qed

lemma process_matching_invoke:
  assumes "invoke_each reg c matching w = (Inr outs, w')"
  shows "process_matching reg c matching w =
     (Inr (fold (\<lambda>p. AList.update (fst p) (snd p)) outs []),
      w'\<lparr>console := console w' @
            [TotalSummary (length matching) (sum_list (map (\<lambda>p. fst (snd p)) outs))
               (sum_list (map (\<lambda>p. snd (snd p)) outs))]\<rparr>)"
  using assms by (simp add: process_matching_def cleanup_each_invoke)

text \<open>
  C8, as stated, fails where the catalog lists a repository twice: the mapping keeps one
  pair of counts per name, that of the last invocation, while the totals add up the counts
  of every invocation. With \<^verbatim>\<open>bdtemp-a\<close> listed twice the mapping sums to one deleted
  and one failed, and the totals printed are two deleted and one failed, over three
  repositories processed.
\<close>

theorem totals_differ_from_sums_over_mapping:
  "fst (cleanup_repositories_by_pattern fragment_re doubled_registry (demo_client False)
          ''bdtemp*'' (start [] [''yes'']))
     = Inr [(''bdtemp-a'', 0, 0), (''bdtemp-b'', 1, 1)]
   \<and> console (snd (cleanup_repositories_by_pattern fragment_re doubled_registry
          (demo_client False) ''bdtemp*'' (start [] [''yes''])))
     = [TotalSummary 3 2 1]"
  by code_simp

text \<open>
  C8, amended. For every pattern and whatever \<^verbatim>\<open>re\<close> makes of its translation,
  \<^verbatim>\<open>cleanup_repositories_by_pattern\<close> lists the repositories first (one catalog
  \<^verbatim>\<open>GET\<close>, which leaves standard input and the console as they are). When the listing is
  empty, or the expression compiles and no listed repository matches, it returns the empty
  mapping in the world the listing left: nothing else is issued. When the listing is not
  empty and \<^verbatim>\<open>re.compile\<close> raises, that error is raised in the same world. Otherwise, in
  dry-run mode or after the answer \<^verbatim>\<open>yes\<close>, \<^verbatim>\<open>cleanup_repository\<close> is invoked on the
  matched repositories in the listed order; when these invocations return the pairs
  \<open>outs\<close>, the mapping returned has exactly the matched repositories as keys, each with
  the counts of its last invocation, and the totals printed are the sums of the counts of
  the invocations; when no repository is listed twice the mapping is \<open>outs\<close> itself, so
  the totals are then the sums over the mapping.
\<close>

theorem pattern_cleanup_results:
  assumes "list_repositories reg c w = (repositories, w1)"
  shows "sent w1 = sent w @ [catalog_request c] \<and> stdin w1 = stdin w \<and> console w1 = console w
     \<and> (repositories = [] \<longrightarrow>
           cleanup_repositories_by_pattern re reg c pattern w = (Inr [], w1))
     \<and> (repositories \<noteq> [] \<and> re (''^'' @ regex_pattern pattern @ ''$'') = None \<longrightarrow>
           cleanup_repositories_by_pattern re reg c pattern w = (Inl PatternError, w1))
     \<and> (\<forall>regex. re (''^'' @ regex_pattern pattern @ ''$'') = Some regex
                 \<and> matching_repos regex repositories = []
           \<longrightarrow> cleanup_repositories_by_pattern re reg c pattern w = (Inr [], w1))
     \<and> (\<forall>regex w2 outs w3.
           re (''^'' @ regex_pattern pattern @ ''$'') = Some regex
           \<and> matching_repos regex repositories \<noteq> []
           \<and> (dry_run c \<and> w2 = w1
               \<or> \<not> dry_run c
                 \<and> (\<exists>answer rest. stdin w1 = answer # rest \<and> lower answer = ''yes''
                       \<and> w2 = w1\<lparr>stdin := rest\<rparr>))
           \<and> invoke_each reg c (matching_repos regex repositories) w2 = (Inr outs, w3)
         \<longrightarrow>
           cleanup_repositories_by_pattern re reg c pattern w =
             (Inr (fold (\<lambda>p. AList.update (fst p) (snd p)) outs []),
              w3\<lparr>console := console w3 @
                    [TotalSummary (length (matching_repos regex repositories))
                       (sum_list (map (\<lambda>p. fst (snd p)) outs))
                       (sum_list (map (\<lambda>p. snd (snd p)) outs))]\<rparr>)
           \<and> map fst outs = matching_repos regex repositories
           \<and> fst ` set (fold (\<lambda>p. AList.update (fst p) (snd p)) outs [])
               = set (matching_repos regex repositories)
           \<and> map_of (fold (\<lambda>p. AList.update (fst p) (snd p)) outs []) = map_of (rev outs)
           \<and> (distinct (matching_repos regex repositories) \<longrightarrow>
                 fold (\<lambda>p. AList.update (fst p) (snd p)) outs [] = outs))"
proof -
  let ?source = "''^'' @ regex_pattern pattern @ ''$''"
  note fr = list_repositories_frame [OF assms]
  have e1: "cleanup_repositories_by_pattern re reg c pattern w = (Inr [], w1)"
    if "repositories = []"
    using that assms by (simp add: cleanup_repositories_by_pattern_def)
  have e0: "cleanup_repositories_by_pattern re reg c pattern w = (Inl PatternError, w1)"
    if "repositories \<noteq> []" and "re ?source = None"
    using that assms by (simp add: cleanup_repositories_by_pattern_def)
  have e2: "cleanup_repositories_by_pattern re reg c pattern w = (Inr [], w1)"
    if "re ?source = Some regex" and "matching_repos regex repositories = []"
    for regex
    using that assms by (simp add: cleanup_repositories_by_pattern_def)
  have main: "cleanup_repositories_by_pattern re reg c pattern w =
             (Inr (fold (\<lambda>p. AList.update (fst p) (snd p)) outs []),
              w3\<lparr>console := console w3 @
                    [TotalSummary (length (matching_repos regex repositories))
                       (sum_list (map (\<lambda>p. fst (snd p)) outs))
                       (sum_list (map (\<lambda>p. snd (snd p)) outs))]\<rparr>)
           \<and> map fst outs = matching_repos regex repositories
           \<and> fst ` set (fold (\<lambda>p. AList.update (fst p) (snd p)) outs [])
               = set (matching_repos regex repositories)
           \<and> map_of (fold (\<lambda>p. AList.update (fst p) (snd p)) outs []) = map_of (rev outs)
           \<and> (distinct (matching_repos regex repositories) \<longrightarrow>
                 fold (\<lambda>p. AList.update (fst p) (snd p)) outs [] = outs)"
    if cp: "re ?source = Some regex"
      and ne: "matching_repos regex repositories \<noteq> []"
      and go: "dry_run c \<and> w2 = w1
               \<or> \<not> dry_run c
                 \<and> (\<exists>answer rest. stdin w1 = answer # rest \<and> lower answer = ''yes''
                       \<and> w2 = w1\<lparr>stdin := rest\<rparr>)"
      and inv: "invoke_each reg c (matching_repos regex repositories) w2 = (Inr outs, w3)"
    for regex w2 outs w3
  proof -
    have rne: "repositories \<noteq> []"
      using ne by (auto simp: matching_repos_def)
    have "cleanup_repositories_by_pattern re reg c pattern w
            = process_matching reg c (matching_repos regex repositories) w2"
      using go
    proof
      assume "dry_run c \<and> w2 = w1"
      then show ?thesis
        using assms cp ne rne by (simp add: cleanup_repositories_by_pattern_def)
    next
      assume a: "\<not> dry_run c
                 \<and> (\<exists>answer rest. stdin w1 = answer # rest \<and> lower answer = ''yes''
                       \<and> w2 = w1\<lparr>stdin := rest\<rparr>)"
      then obtain answer rest where
        s: "stdin w1 = answer # rest" "lower answer = ''yes''" "w2 = w1\<lparr>stdin := rest\<rparr>"
        by blast
      then have "input w1 = (Inr answer, w2)" by (simp add: input_def)
      then show ?thesis
        using a s assms cp ne rne by (simp add: cleanup_repositories_by_pattern_def)
    qed
    then have r: "cleanup_repositories_by_pattern re reg c pattern w =
             (Inr (fold (\<lambda>p. AList.update (fst p) (snd p)) outs []),
              w3\<lparr>console := console w3 @
                    [TotalSummary (length (matching_repos regex repositories))
                       (sum_list (map (\<lambda>p. fst (snd p)) outs))
                       (sum_list (map (\<lambda>p. snd (snd p)) outs))]\<rparr>)"
      using process_matching_invoke [OF inv] by simp
    have k: "map fst outs = matching_repos regex repositories"
      using inv by (rule invoke_each_keys)
    have ks: "fst ` set (fold (\<lambda>p. AList.update (fst p) (snd p)) outs [])
               = set (matching_repos regex repositories)"
      using fold_update_keys [of outs "[]"] k by (simp flip: set_map)
    have mo: "map_of (fold (\<lambda>p. AList.update (fst p) (snd p)) outs []) = map_of (rev outs)"
      by (simp add: fold_update_map_of)
    have di: "fold (\<lambda>p. AList.update (fst p) (snd p)) outs [] = outs"
      if "distinct (matching_repos regex repositories)"
      using that k fold_update_distinct [of "[]" outs] by simp
    from r k ks mo di show ?thesis by blast
  qed
  from fr e1 e0 e2 main show ?thesis by blast
qed

theorem pattern_cleanup_results_witness:
  "fst (cleanup_repositories_by_pattern fragment_re demo_registry (demo_client False)
          ''bdtemp*'' (start [] [''YES''])) = Inr [(''bdtemp-a'', 1, 0), (''bdtemp-b'', 1, 1)]
   \<and> console (snd (cleanup_repositories_by_pattern fragment_re demo_registry
          (demo_client False) ''bdtemp*'' (start [] [''YES'']))) = [TotalSummary 2 2 1]
   \<and> fst (cleanup_repositories_by_pattern fragment_re demo_registry (demo_client False)
          ''nothing*'' (start [] [''YES''])) = Inr []
   \<and> fst (cleanup_repositories_by_pattern fragment_re demo_registry (demo_client False)
          ''['' (start [] [''YES''])) = Inl PatternError"
proof -
  let ?w = "start [] [''YES''] :: string list world"
  let ?c = "demo_client False"
  let ?rx = "[Bol, One (Lit CHR ''b''), One (Lit CHR ''d''), One (Lit CHR ''t''),
              One (Lit CHR ''e''), One (Lit CHR ''m''), One (Lit CHR ''p''), Star Dot, Eol]"
  let ?ry = "[Bol, One (Lit CHR ''n''), One (Lit CHR ''o''), One (Lit CHR ''t''),
              One (Lit CHR ''h''), One (Lit CHR ''i''), One (Lit CHR ''n''),
              One (Lit CHR ''g''), Star Dot, Eol]"
  let ?repos = "[''bdtemp-a'', ''bdtemp-b'', ''keep'']"
  let ?w1 = "snd (list_repositories demo_registry ?c ?w)"
  let ?w2 = "?w1\<lparr>stdin := []\<rparr>"
  let ?outs = "[(''bdtemp-a'', 1, 0), (''bdtemp-b'', 1, 1)] :: results"
  let ?w3 = "snd (invoke_each demo_registry ?c (matching_repos (re_match ?rx) ?repos) ?w2)"
  have "fst (list_repositories demo_registry ?c ?w) = ?repos" by code_simp
  then have h: "list_repositories demo_registry ?c ?w = (?repos, ?w1)"
    by (simp add: prod_eq_iff)
  note t = pattern_cleanup_results [where reg = demo_registry and re = fragment_re, OF h]
  have "re_compile (''^'' @ regex_pattern ''bdtemp*'' @ ''$'') = Some ?rx" by code_simp
  then have cp: "fragment_re (''^'' @ regex_pattern ''bdtemp*'' @ ''$'') = Some (re_match ?rx)"
    by (simp add: fragment_re_def)
  have m: "matching_repos (re_match ?rx) ?repos = [''bdtemp-a'', ''bdtemp-b'']" by code_simp
  have nd: "\<not> dry_run ?c" by code_simp
  have si: "stdin ?w1 = ''YES'' # []" by code_simp
  have lo: "lower ''YES'' = ''yes''" by code_simp
  have "fst (invoke_each demo_registry ?c (matching_repos (re_match ?rx) ?repos) ?w2)
          = Inr ?outs"
    by code_simp
  then have inv: "invoke_each demo_registry ?c (matching_repos (re_match ?rx) ?repos) ?w2
      = (Inr ?outs, ?w3)"
    by (simp add: prod_eq_iff)
  have co: "console ?w3 = []" by code_simp
  have go: "dry_run ?c \<and> ?w2 = ?w1
            \<or> \<not> dry_run ?c
              \<and> (\<exists>answer rest. stdin ?w1 = answer # rest \<and> lower answer = ''yes''
                    \<and> ?w2 = ?w1\<lparr>stdin := rest\<rparr>)"
    using nd si lo by blast
  have ne: "matching_repos (re_match ?rx) ?repos \<noteq> []" using m by simp
  have "cleanup_repositories_by_pattern fragment_re demo_registry ?c ''bdtemp*'' ?w =
          (Inr (fold (\<lambda>p. AList.update (fst p) (snd p)) ?outs []),
           ?w3\<lparr>console := console ?w3 @
                 [TotalSummary (length (matching_repos (re_match ?rx) ?repos))
                    (sum_list (map (\<lambda>p. fst (snd p)) ?outs))
                    (sum_list (map (\<lambda>p. snd (snd p)) ?outs))]\<rparr>)"
    using t [of "''bdtemp*''"] cp ne go inv by blast
  then have r1: "fst (cleanup_repositories_by_pattern fragment_re demo_registry ?c
                        ''bdtemp*'' ?w) = Inr ?outs"
    and r2: "console (snd (cleanup_repositories_by_pattern fragment_re demo_registry ?c
                        ''bdtemp*'' ?w)) = [TotalSummary 2 2 1]"
    using co m by simp_all
  have "re_compile (''^'' @ regex_pattern ''nothing*'' @ ''$'') = Some ?ry" by code_simp
  then have cp': "fragment_re (''^'' @ regex_pattern ''nothing*'' @ ''$'') = Some (re_match ?ry)"
    by (simp add: fragment_re_def)
  have m': "matching_repos (re_match ?ry) ?repos = []" by code_simp
  have "cleanup_repositories_by_pattern fragment_re demo_registry ?c ''nothing*'' ?w
          = (Inr [], ?w1)"
    using t [of "''nothing*''"] cp' m' by blast
  then have r3: "fst (cleanup_repositories_by_pattern fragment_re demo_registry ?c
                        ''nothing*'' ?w) = Inr []"
    by simp
  have cn: "fragment_re (''^'' @ regex_pattern ''['' @ ''$'') = None" by code_simp
  have "cleanup_repositories_by_pattern fragment_re demo_registry ?c ''['' ?w
          = (Inl PatternError, ?w1)"
    using t [of "''[''"] cn by blast
  then have r4: "fst (cleanup_repositories_by_pattern fragment_re demo_registry ?c
                        ''['' ?w) = Inl PatternError"
    by simp
  from r1 r2 r3 r4 show ?thesis by blast
qed

end
